theory Spec2Isabelle
  imports Main "HOL-Library.Word" "HOL-Library.Sublist"
begin

section \<open>Shared types\<close>

text \<open>
  A Go \<^verbatim>\<open>error\<close> value, as far as the package inspects it: \<^verbatim>\<open>io.EOF\<close>, an
  \<^verbatim>\<open>errors.New\<close> string, a \<^verbatim>\<open>*net.OpError\<close> (its \<^verbatim>\<open>Op\<close>, its inner \<^verbatim>\<open>Err\<close> and
  the answer of its \<^verbatim>\<open>Temporary()\<close> method), and an error that wraps another one
  with a message prefix (\<^verbatim>\<open>fmt.Errorf("...: %w", err)\<close>).  A \<^verbatim>\<open>nil\<close> error is
  \<open>None\<close> of \<open>go_error option\<close>.
\<close>

datatype go_error =
    EOF
  | ErrorString string
  | OpError string go_error bool
  | Wrapped string go_error

type_synonym bytes = "8 word list"

text \<open>\<^verbatim>\<open>time.Duration\<close> is a count of nanoseconds.\<close>

type_synonym duration = int

definition Millisecond :: duration where
  "Millisecond = 1000000"

definition Second :: duration where
  "Second = 1000000000"

section \<open>conn.go: the connection engine\<close>

subsection \<open>Data\<close>

text \<open>
  A \<^verbatim>\<open>*pendingWrite\<close> is a pointer; \<open>addr\<close> is its address.  \<^verbatim>\<open>buf\<close> and \<^verbatim>\<open>wait\<close> are
  written once by \<^verbatim>\<open>acquirePendingWrite\<close> and only read afterwards, so the queue
  carries them with the address.  The \<^verbatim>\<open>wg\<close> field is shared between the caller
  blocked in \<^verbatim>\<open>Write\<close> and the writer loop: it lives in the store \<open>wg\<close> of the
  connection state below, indexed by address.
\<close>

record pendingWrite =
  addr :: nat
  buf :: bytes
  wait :: bool

text \<open>
  The \<^verbatim>\<open>Conn\<close> struct with the fields the modelled functions use.  After the
  source's fields come the parts of the process state the functions touch:
  \<open>signals\<close> counts the calls of \<^verbatim>\<open>writerCond.Signal()\<close>, \<open>wg\<close> holds the
  \<^verbatim>\<open>sync.WaitGroup\<close> counter of the \<^verbatim>\<open>pendingWrite\<close> at each address, \<open>pool\<close> lists the
  addresses handed to \<^verbatim>\<open>pendingWritePool.Put\<close>, \<open>fresh\<close> is the next unused address.
\<close>

record Conn =
  MaxConns :: int
  ReadBufferSize :: int
  WriteBufferSize :: int
  ReadTimeout :: duration
  WriteTimeout :: duration
  writerQueue :: "pendingWrite list"
  writerDone :: bool
  seq :: "32 word"
  signals :: nat
  wg :: "nat \<Rightarrow> nat"
  pool :: "nat list"
  fresh :: nat

subsection \<open>Sequence numbers\<close>

text \<open>
  \<^verbatim>\<open>func (c *Conn) next() uint32\<close>: increment \<^verbatim>\<open>c.seq\<close> (a \<^verbatim>\<open>uint32\<close>, so the
  increment wraps), replace 0 by 1, return the counter.  The result is the
  returned number and the connection with the counter updated.
\<close>

definition "next" :: "Conn \<Rightarrow> 32 word \<times> Conn" where
  "next c =
     (let c1 = c\<lparr>seq := seq c + 1\<rparr>;
          c2 = (if seq c1 = 0 then c1\<lparr>seq := 1\<rparr> else c1)
      in (seq c2, c2))"

text \<open>\<open>issue n c\<close>: the numbers returned by \<open>n\<close> consecutive calls of \<^verbatim>\<open>next\<close>.\<close>

fun issue :: "nat \<Rightarrow> Conn \<Rightarrow> 32 word list" where
  "issue 0 c = []"
| "issue (Suc n) c = (case next c of (s, c') \<Rightarrow> s # issue n c')"

text \<open>
  The position of a counter value on the cycle \<open>1, 2, \<dots>, 2^32 - 1\<close> that
  \<^verbatim>\<open>next\<close> walks; the initial counter 0 sits where \<open>2^32 - 1\<close> sits, one step
  before 1.
\<close>

definition seq_pos :: "32 word \<Rightarrow> nat" where
  "seq_pos s = (if s = 0 then 4294967294 else unat s - 1)"

text \<open>A connection as \<^verbatim>\<open>Conn{}\<close> leaves it: every field at its zero value.\<close>

definition conn0 :: Conn where
  "conn0 = \<lparr>MaxConns = 0, ReadBufferSize = 0, WriteBufferSize = 0, ReadTimeout = 0,
     WriteTimeout = 0, writerQueue = [], writerDone = False, seq = 0, signals = 0,
     wg = (\<lambda>_. 0), pool = [], fresh = 0\<rparr>"

section \<open>Properties of the sequence-number generator\<close>


lemma next_fst: "fst (next c) = (if seq c + 1 = 0 then 1 else seq c + 1)"
  by (simp add: next_def Let_def)

lemma next_seq: "seq (snd (next c)) = fst (next c)"
  by (simp add: next_def Let_def)

lemma next_nonzero: "fst (next c) \<noteq> 0"
  by (simp add: next_fst)

lemma seq_pos_next: "seq_pos (fst (next c)) = (seq_pos (seq c) + 1) mod 4294967295"
proof (cases "seq c + 1 = 0")
  case True
  then have "seq c = -1" by (simp add: eq_neg_iff_add_eq_0)
  then have "seq c = 4294967295" by simp
  then show ?thesis by (simp add: next_fst seq_pos_def)
next
  case False
  then have ne: "seq c \<noteq> -1" by (auto simp: eq_neg_iff_add_eq_0)
  have "unat (seq c) \<noteq> 4294967295"
  proof
    assume "unat (seq c) = 4294967295"
    then have "(word_of_nat (unat (seq c)) :: 32 word) = word_of_nat 4294967295" by simp
    then show False using ne by simp
  qed
  moreover have "unat (seq c) < 2 ^ 32"
    using unsigned_less[of "seq c", where 'a = nat] by simp
  ultimately have lt: "unat (seq c) < 4294967295" by simp
  have "unat (seq c + 1) = unat (seq c) + 1"
    using lt by (simp add: unat_word_ariths)
  moreover have "seq c \<noteq> 0 \<Longrightarrow> 0 < unat (seq c)"
    by (simp add: unat_gt_0)
  ultimately show ?thesis using False lt
    by (auto simp: next_fst seq_pos_def)
qed


lemma issue_Suc [simp]: "issue (Suc n) c = fst (next c) # issue n (snd (next c))"
  by (simp split: prod.splits)

declare issue.simps(2) [simp del]

lemma issue_length: "length (issue n c) = n"
  by (induction n arbitrary: c) (auto split: prod.splits)

lemma issue_nth_pos:
  "i < n \<Longrightarrow> seq_pos (issue n c ! i) = (seq_pos (seq c) + i + 1) mod 4294967295"
proof (induction n arbitrary: c i)
  case 0
  then show ?case by simp
next
  case (Suc n)
  obtain s c' where nx: "next c = (s, c')" by (cases "next c")
  then have s: "s = fst (next c)" and c': "seq c' = fst (next c)"
    using next_seq[of c] by auto
  show ?case
  proof (cases i)
    case 0
    then show ?thesis using seq_pos_next[of c] by (simp add: issue_Suc)
  next
    case (Suc k)
    then have "k < n" using Suc.prems by simp
    from Suc.IH[OF this, of c']
    have "seq_pos (issue n c' ! k) = (seq_pos (fst (next c)) + k + 1) mod 4294967295"
      using c' by simp
    moreover have "(seq_pos (fst (next c)) + k + 1) mod 4294967295
        = (seq_pos (seq c) + Suc k + 1) mod 4294967295"
      unfolding seq_pos_next by (metis (no_types, opaque_lifting) add.assoc add.commute mod_add_left_eq plus_1_eq_Suc)
    ultimately show ?thesis using nx Suc
      by simp
  qed
qed

lemma issue_nonzero: "0 \<notin> set (issue n c)"
proof (induction n arbitrary: c)
  case 0
  then show ?case by simp
next
  case (Suc n)
  then show ?case using next_nonzero[of c] by (simp add: issue_Suc)
qed

lemma issue_distinct:
  assumes "n \<le> 4294967295"
  shows "distinct (issue n c)"
proof -
  have "issue n c ! i \<noteq> issue n c ! j" if "i < j" "j < n" for i j
  proof
    assume "issue n c ! i = issue n c ! j"
    then have "seq_pos (issue n c ! i) = seq_pos (issue n c ! j)" by simp
    then have "(seq_pos (seq c) + i + 1) mod 4294967295 = (seq_pos (seq c) + j + 1) mod 4294967295"
      using that issue_nth_pos[of i n c] issue_nth_pos[of j n c] by simp
    then have "(4294967295::nat) dvd (seq_pos (seq c) + j + 1) - (seq_pos (seq c) + i + 1)"
      by (metis mod_eq_dvd_iff_nat add_le_cancel_left add_le_cancel_right less_imp_le that(1))
    then have "(4294967295::nat) dvd j - i" by simp
    moreover have "0 < j - i" "j - i < 4294967295" using that assms by auto
    ultimately show False by (meson dvd_imp_le not_less)
  qed
  then have "issue n c ! i \<noteq> issue n c ! j" if "i < n" "j < n" "i \<noteq> j" for i j
    using that by (cases "i < j") (auto simp: not_less le_less dest: not_sym)
  then show ?thesis
    by (simp add: distinct_conv_nth issue_length)
qed

text \<open>
  Claim C5.  The sequence-number generator never returns 0: from counter state
  \<open>s\<close> it returns \<open>s + 1\<close> modulo \<open>2^32\<close>, except that it returns 1 when the
  increment reaches 0; the counter is left at the returned number; and any
  \<open>n \<le> 2^32 - 1\<close> consecutive issuances, from any counter state, are nonzero and
  pairwise distinct.
\<close>

theorem next_never_zero_and_distinct:
  "fst (next c) = (if seq c + 1 = 0 then 1 else seq c + 1)
   \<and> fst (next c) \<noteq> 0
   \<and> seq (snd (next c)) = fst (next c)
   \<and> (n \<le> 2 ^ 32 - 1 \<longrightarrow> distinct (issue n c) \<and> 0 \<notin> set (issue n c))"
  using next_fst[of c] next_nonzero[of c] next_seq[of c] issue_distinct[of n c] issue_nonzero[of n c]
  by simp

theorem next_never_zero_and_distinct_witness:
  "(3::nat) \<le> 2 ^ 32 - 1 \<and> issue 3 (conn0\<lparr>seq := 4294967294\<rparr>) = [4294967295, 1, 2]
   \<and> distinct (issue 3 (conn0\<lparr>seq := 4294967294\<rparr>)) \<and> 0 \<notin> set (issue 3 (conn0\<lparr>seq := 4294967294\<rparr>))"
  using next_never_zero_and_distinct[of "conn0\<lparr>seq := 4294967294\<rparr>" 3]
  by (simp add: numeral_3_eq_3 next_def conn0_def)


end
